theory Spec2Isabelle
  imports Main
begin

section \<open>Python values, dictionaries and sets\<close>

text \<open>
  The values \<^verbatim>\<open>csv_output.py\<close> handles are the scalars of a tabular record and the
  strings the csv module reads back. The code never inspects a value: it hands it to
  \<^verbatim>\<open>csv.writer\<close>, which writes a \<^verbatim>\<open>str\<close> as it is, \<^verbatim>\<open>None\<close> as the empty
  field and anything else through \<^verbatim>\<open>str()\<close>. A scalar that is not a \<^verbatim>\<open>str\<close> (an int,
  a float, a bool, a numpy scalar) is therefore represented by the text \<^verbatim>\<open>str()\<close>
  gives for it.
\<close>

datatype pyval = PyStr string | PyScalar string | PyNone

fun cell_text :: "pyval \<Rightarrow> string" where
  "cell_text (PyStr s) = s"
| "cell_text (PyScalar t) = t"
| "cell_text PyNone = []"

text \<open>
  A Python \<^verbatim>\<open>dict\<close> with string keys, in insertion order: \<^verbatim>\<open>d[k] = v\<close> replaces the
  value of a key already present where it stands and appends a new key at the end.
\<close>

type_synonym pydict = "(string \<times> pyval) list"

definition keys :: "pydict \<Rightarrow> string list" where
  "keys d = map fst d"

definition contains :: "pydict \<Rightarrow> string \<Rightarrow> bool" where
  "contains d k = (k \<in> set (keys d))"

fun setitem :: "pydict \<Rightarrow> string \<Rightarrow> pyval \<Rightarrow> pydict" where
  "setitem [] k v = [(k, v)]"
| "setitem ((k', v') # d) k v = (if k' = k then (k, v) # d else (k', v') # setitem d k v)"

definition get :: "pydict \<Rightarrow> string \<Rightarrow> pyval \<Rightarrow> pyval" where
  "get d k dflt = (case map_of d k of Some v \<Rightarrow> v | None \<Rightarrow> dflt)"

definition dict_of :: "(string \<times> pyval) list \<Rightarrow> pydict" where
  "dict_of ps = foldl (\<lambda>d (k, v). setitem d k v) [] ps"

text \<open>
  \<^verbatim>\<open>self._fieldnames\<close> is a Python \<^verbatim>\<open>set\<close>. The code iterates over it (the
  \<^verbatim>\<open>DictWriter\<close> does on every \<^verbatim>\<open>writerow\<close>, and so do the two padding loops), so the
  model keeps the set as the list of its elements in iteration order. Python fixes that
  order by the hashes of the elements and the history of the table; it stays the same
  while the set is not modified and may change altogether when an element is added. The
  order is a parameter of the model: \<open>iter xs\<close> is the iteration order of the set built
  from the elements \<open>xs\<close>. All that is known of it is \<open>iteration_order\<close>.
\<close>

type_synonym set_order = "string list \<Rightarrow> string list"

definition iteration_order :: "set_order \<Rightarrow> bool" where
  "iteration_order iter = (\<forall>xs. set (iter xs) = set xs \<and> distinct (iter xs))"

definition issuperset :: "string list \<Rightarrow> string list \<Rightarrow> bool" where
  "issuperset s ks = (set ks \<subseteq> set s)"

section \<open>The record source\<close>

text \<open>
  Modelled from the spec: the class \<^verbatim>\<open>TabularInput\<close> of \<^verbatim>\<open>dowel\<close>, which
  \<^verbatim>\<open>csv_output.py\<close> imports and whose source is not at hand. The spec gives it as a
  record source exposing a primitive mapping view of its current values
  (\<^verbatim>\<open>as_primitive_dict\<close>, a fresh dictionary on every read) and a way to mark a given
  key as recorded (\<^verbatim>\<open>mark\<close>); \<open>recorded\<close> is the set of keys marked so far.
\<close>

record tabular_input =
  as_primitive_dict :: pydict
  recorded :: "string set"

definition mark :: "tabular_input \<Rightarrow> string \<Rightarrow> tabular_input" where
  "mark t k = t\<lparr>recorded := insert k (recorded t)\<rparr>"

text \<open>
  The argument of \<^verbatim>\<open>record\<close> is any Python object: a \<^verbatim>\<open>TabularInput\<close>, or an
  object of another type, given by the name of its type.
\<close>

datatype record_arg = TabularInput tabular_input | OtherObject string

section \<open>The file as the csv module and the text layer see it\<close>

text \<open>
  The file \<^verbatim>\<open>_log_file\<close> is modelled as the sequence of CSV records in it, each a list
  of cells as they were written. The base class opens the file with the mode it is given
  (\<^verbatim>\<open>w+\<close>, line 18) and nothing else: a text file with universal newlines, which on
  reading turns every \<^verbatim>\<open>CR LF\<close> and every other \<^verbatim>\<open>CR\<close> into \<^verbatim>\<open>LF\<close>, inside quoted
  cells as well. (On writing the text layer is taken to leave the characters as they
  are, as it does where the line separator of the system is \<^verbatim>\<open>LF\<close>; texts are taken to
  be encodable and \<^verbatim>\<open>str()\<close> of a value to succeed; the csv module is that of
  Python 3.11 and later, whose reader takes a NUL character as any other.)
\<close>

type_synonym csv_row = "string list"

abbreviation CR :: char where "CR \<equiv> CHR 0x0D"

abbreviation LF :: char where "LF \<equiv> CHR 0x0A"

fun universal_newlines :: "string \<Rightarrow> string" where
  "universal_newlines [] = []"
| "universal_newlines [c] = (if c = CR then [LF] else [c])"
| "universal_newlines (c # d # cs) =
     (if c = CR then (if d = LF then LF # universal_newlines cs
                      else LF # universal_newlines (d # cs))
      else c # universal_newlines (d # cs))"

text \<open>
  The csv reader raises \<^verbatim>\<open>_csv.Error\<close> (field larger than field limit) on a cell of
  more than \<^verbatim>\<open>csv.field_size_limit()\<close> characters, counted as it reads them; the limit
  is 131072 unless the program changes it, which this one does not.
\<close>

definition field_size_limit :: nat where
  "field_size_limit = 131072"

definition too_long :: "csv_row \<Rightarrow> bool" where
  "too_long row = list_ex (\<lambda>cell. field_size_limit < length (universal_newlines cell)) row"

text \<open>
  The file position. The class writes at the current position and moves it in
  \<^verbatim>\<open>rewriteCSV\<close> only: \<^verbatim>\<open>seek(0)\<close>, read to the end, \<^verbatim>\<open>truncate(0)\<close>,
  \<^verbatim>\<open>seek(0)\<close>, and then writes. So the position is at the end of the file, unless the
  reading failed: then neither the truncation nor the second seek has happened, and the
  position is where the text layer stopped reading ahead, at the end of some chunk at or
  after the end of the line on which the reader raised (the end of the file, when that
  chunk is the last). \<open>AfterFailedRead k\<close> is that position, \<open>k\<close> the index of the
  record the reader raised on: the records before it lie before the position.
\<close>

datatype file_position = AtEnd | AfterFailedRead nat

section \<open>The environment\<close>

text \<open>
  What the behaviour of the class depends on and its source does not settle:
  \<^item> \<open>set_iteration\<close>, the iteration order of a Python set (see above);
  \<^item> \<open>stale_write\<close>, what a write at a position left by a failed reading makes of the
    file: \<open>stale_write env tail row\<close> is what the records at and after the one the
    reader raised on have become once \<open>row\<close> is written there. It depends on the bytes
    of the file and on the chunks of the text layer; where the position is the end of
    the file it is \<open>tail @ [row]\<close>. Nothing is assumed of it, and what is proved for
    every environment does not depend on what it gives;
  \<^item> \<open>warnings_raise\<close>, whether the warnings filter of the program turns a
    \<^verbatim>\<open>CsvOutputWarning\<close> into an exception (the action \<^verbatim>\<open>error\<close>); by default it
    does not.
\<close>

record environment =
  set_iteration :: set_order
  stale_write :: "csv_row list \<Rightarrow> csv_row \<Rightarrow> csv_row list"
  warnings_raise :: bool

section \<open>The writer\<close>

text \<open>
  The \<^verbatim>\<open>DictWriter\<close> holds references to \<^verbatim>\<open>_log_file\<close> and to the set object
  \<^verbatim>\<open>_fieldnames\<close>, both fields of the writer, so the model's \<open>DictWriter\<close> carries
  nothing and its methods read those fields.

  Two fields are probes, not fields of the class: \<open>warnings_emitted\<close> lists the messages
  handed to \<^verbatim>\<open>warnings.warn\<close>, and \<open>rewrite_count\<close> counts the calls of \<^verbatim>\<open>rewriteCSV\<close>.
\<close>

datatype dict_writer = DictWriter

datatype error = ValueError | AttributeError | TypeError | CsvError | CsvOutputWarning string

record csv_output =
  log_file :: "csv_row list"
  position :: file_position
  writer :: "dict_writer option"
  fieldnames :: "string list option"
  warned_once :: "string set"
  disable_warnings_flag :: bool
  warnings_emitted :: "string list"
  rewrite_count :: nat

text \<open>\<^verbatim>\<open>__init__\<close>: mode \<^verbatim>\<open>w+\<close> opens a new, empty file.\<close>

definition CsvOutput :: "string \<Rightarrow> csv_output" where
  "CsvOutput file_name =
     \<lparr>log_file = [], position = AtEnd, writer = None, fieldnames = None, warned_once = {},
      disable_warnings_flag = False, warnings_emitted = [], rewrite_count = 0\<rparr>"

text \<open>
  A method returns the outcome (\<open>Inl\<close> the exception raised, \<open>Inr\<close> a normal return)
  and the writer as the call left it.
\<close>

definition and_then ::
  "(error + unit) \<times> csv_output \<Rightarrow> (csv_output \<Rightarrow> (error + unit) \<times> csv_output)
     \<Rightarrow> (error + unit) \<times> csv_output" where
  "and_then r f = (case r of (Inl e, w) \<Rightarrow> (Inl e, w) | (Inr _, w) \<Rightarrow> f w)"

text \<open>One record written to the file at the current position.\<close>

definition write_record :: "environment \<Rightarrow> csv_output \<Rightarrow> csv_row \<Rightarrow> csv_output" where
  "write_record env w row =
     (case position w of
        AtEnd \<Rightarrow> w\<lparr>log_file := log_file w @ [row]\<rparr>
      | AfterFailedRead k \<Rightarrow>
          w\<lparr>log_file := take k (log_file w) @ stale_write env (drop k (log_file w)) row\<rparr>)"

text \<open>
  \<^verbatim>\<open>DictWriter.writerow\<close> with \<^verbatim>\<open>restval=''\<close> and \<^verbatim>\<open>extrasaction='ignore'\<close>: one cell
  for each field name, in iteration order; keys of the row that are no field names are
  ignored. \<^verbatim>\<open>writeheader\<close> writes the row that maps every field name to itself.
\<close>

definition writerow ::
  "environment \<Rightarrow> csv_output \<Rightarrow> pydict \<Rightarrow> (error + unit) \<times> csv_output" where
  "writerow env w rowdict =
     (case fieldnames w of
        None \<Rightarrow> (Inl TypeError, w)
      | Some fs \<Rightarrow>
          (Inr (), write_record env w (map (\<lambda>key. cell_text (get rowdict key (PyStr []))) fs)))"

definition writeheader :: "environment \<Rightarrow> csv_output \<Rightarrow> (error + unit) \<times> csv_output" where
  "writeheader env w =
     (case fieldnames w of
        None \<Rightarrow> (Inl TypeError, w)
      | Some fs \<Rightarrow> writerow env w (dict_of (zip fs (map PyStr fs))))"

text \<open>
  \<^verbatim>\<open>csv.DictReader\<close> over the whole file, as line 74 runs it: it raises when a cell
  of the file is too long; otherwise the first record, read through the text layer,
  gives the field names, and every later record that is not blank becomes a dictionary
  from the field names to its cells as read, a field name with no cell getting
  \<^verbatim>\<open>None\<close>. (Cells beyond the field names go under the key \<^verbatim>\<open>None\<close>, which no code
  here reads: the model drops them.)
\<close>

definition read_row :: "string list \<Rightarrow> csv_row \<Rightarrow> pydict" where
  "read_row fns row =
     fold (\<lambda>key d. setitem d key PyNone) (drop (length row) fns)
       (dict_of (zip fns (map PyStr row)))"

definition DictReader :: "csv_row list \<Rightarrow> error + pydict list" where
  "DictReader f =
     (if list_ex too_long f then Inl CsvError
      else Inr (case map (map universal_newlines) f of
                  [] \<Rightarrow> []
                | header # lines \<Rightarrow> map (read_row header) (filter (\<lambda>row. row \<noteq> []) lines)))"

text \<open>
  The loop of \<^verbatim>\<open>rewriteCSV\<close> that adds the new field names to the set (lines 81 to
  83); the set may iterate in another order after each addition.
\<close>

definition add_fieldnames :: "set_order \<Rightarrow> string list \<Rightarrow> string list \<Rightarrow> string list" where
  "add_fieldnames iter new fs =
     fold (\<lambda>key s. if key \<notin> set s then iter (s @ [key]) else s) new fs"

text \<open>
  The padding loop, of \<^verbatim>\<open>rewriteCSV\<close> (lines 93 to 95, on a row read back) and of
  \<^verbatim>\<open>record\<close> (lines 51 to 53, on the caller's row).
\<close>

definition pad_row :: "string list \<Rightarrow> pydict \<Rightarrow> pydict" where
  "pad_row fs row =
     fold (\<lambda>curfield r. if \<not> contains r curfield then setitem r curfield (PyStr []) else r)
       fs row"

text \<open>
  \<^verbatim>\<open>rewriteCSV(fieldnames)\<close>: the rows are read back; when that raises, the exception
  leaves the method with the file and the fields of the writer as they were and the
  file position where the reading stopped. Otherwise the file is emptied, the new names
  are added to the set, a new \<^verbatim>\<open>DictWriter\<close> writes the header and then every row,
  padded. With \<^verbatim>\<open>_fieldnames\<close> still \<^verbatim>\<open>None\<close> the method raises after it has emptied
  the file: in the loop over the new names, or, when there is none, in \<^verbatim>\<open>writeheader\<close>
  of the new \<^verbatim>\<open>DictWriter\<close>.
\<close>

definition rewriteCSV ::
  "environment \<Rightarrow> csv_output \<Rightarrow> string list \<Rightarrow> (error + unit) \<times> csv_output" where
  "rewriteCSV env w new =
     (case DictReader (log_file w) of
        Inl e \<Rightarrow>
          (Inl e,
           w\<lparr>position := AfterFailedRead (length (takeWhile (\<lambda>row. \<not> too_long row) (log_file w))),
             rewrite_count := Suc (rewrite_count w)\<rparr>)
      | Inr csvdata \<Rightarrow>
          (let w1 = w\<lparr>log_file := [], position := AtEnd, rewrite_count := Suc (rewrite_count w)\<rparr>
           in case fieldnames w1 of
                None \<Rightarrow>
                  (Inl TypeError,
                   w1\<lparr>writer := (if new = [] then Some DictWriter else writer w1)\<rparr>)
              | Some fs \<Rightarrow>
                  (let fs' = add_fieldnames (set_iteration env) new fs;
                       w2 = w1\<lparr>fieldnames := Some fs', writer := Some DictWriter\<rparr>
                   in fold (\<lambda>row r. and_then r (\<lambda>s. writerow env s (pad_row fs' row)))
                        csvdata (writeheader env w2))))"

text \<open>
  \<^verbatim>\<open>record(data, prefix)\<close>, in three parts: \<open>start_file\<close> is the first call's branch
  (lines 38 to 43: the field names become the set of the row's keys, a \<^verbatim>\<open>DictWriter\<close>
  is made and the header written); \<open>write_data\<close> is the end of the method (lines 49 to
  57: the row is padded in place, written, and every key of the padded row is marked);
  \<open>record_csv\<close> is the method. The third component of its result is the argument as
  the call left it (its marks). Where a field holds \<^verbatim>\<open>None\<close> and the code uses it
  as a set, Python raises (\<^verbatim>\<open>AttributeError\<close> for a method of \<^verbatim>\<open>None\<close>,
  \<^verbatim>\<open>TypeError\<close> for iterating over it), and so does the model. An exception of
  \<^verbatim>\<open>rewriteCSV\<close> leaves \<^verbatim>\<open>record\<close> at line 47: nothing is written or marked.
\<close>

definition start_file ::
  "environment \<Rightarrow> csv_output \<Rightarrow> pydict \<Rightarrow> (error + unit) \<times> csv_output" where
  "start_file env w datadict =
     writeheader env
       (w\<lparr>fieldnames := Some (set_iteration env (keys datadict)), writer := Some DictWriter\<rparr>)"

definition write_data ::
  "environment \<Rightarrow> tabular_input \<Rightarrow> pydict \<Rightarrow> csv_output
     \<Rightarrow> (error + unit) \<times> csv_output \<times> record_arg" where
  "write_data env t datadict w =
     (case fieldnames w of
        None \<Rightarrow> (Inl TypeError, w, TabularInput t)
      | Some fs \<Rightarrow>
          (let datadict' = pad_row fs datadict
           in case writerow env w datadict' of
                (Inl e, w') \<Rightarrow> (Inl e, w', TabularInput t)
              | (Inr _, w') \<Rightarrow>
                  (Inr (), w', TabularInput (fold (\<lambda>k t'. mark t' k) (keys datadict') t))))"

definition record_csv ::
  "environment \<Rightarrow> csv_output \<Rightarrow> record_arg \<Rightarrow> string
     \<Rightarrow> (error + unit) \<times> csv_output \<times> record_arg" where
  "record_csv env w data prefix =
     (case data of
        TabularInput t \<Rightarrow>
          (let datadict = as_primitive_dict t in
           if keys datadict = [] \<and> writer w = None then (Inr (), w, data)
           else
             (case (if writer w = None then start_file env w datadict else (Inr (), w)) of
                (Inl e, w1) \<Rightarrow> (Inl e, w1, data)
              | (Inr _, w1) \<Rightarrow>
                  (case fieldnames w1 of
                     None \<Rightarrow> (Inl AttributeError, w1, data)
                   | Some fs \<Rightarrow>
                       (case (if \<not> issuperset fs (keys datadict)
                              then rewriteCSV env w1 (keys datadict) else (Inr (), w1)) of
                          (Inl e, w2) \<Rightarrow> (Inl e, w2, data)
                        | (Inr _, w2) \<Rightarrow> write_data env t datadict w2))))
      | OtherObject ty \<Rightarrow> (Inl ValueError, w, data))"

text \<open>
  \<^verbatim>\<open>_warn\<close> (lines 105 to 110). The text it hands to \<^verbatim>\<open>warnings.warn\<close> is the
  message coloured yellow, listed here by the message itself. Where the filter turns
  the warning into an exception, \<^verbatim>\<open>warnings.warn\<close> raises it: the exception leaves
  \<^verbatim>\<open>_warn\<close> at line 106, before the message is added to \<^verbatim>\<open>_warned_once\<close>.
\<close>

definition warn :: "environment \<Rightarrow> csv_output \<Rightarrow> string \<Rightarrow> (error + string) \<times> csv_output" where
  "warn env w msg =
     (if \<not> disable_warnings_flag w \<and> msg \<notin> warned_once w
      then (if warnings_raise env
            then (Inl (CsvOutputWarning msg), w\<lparr>warnings_emitted := warnings_emitted w @ [msg]\<rparr>)
            else (Inr msg,
                  w\<lparr>warnings_emitted := warnings_emitted w @ [msg],
                    warned_once := insert msg (warned_once w)\<rparr>))
      else (Inr msg, w\<lparr>warned_once := insert msg (warned_once w)\<rparr>))"

definition disable_warnings :: "csv_output \<Rightarrow> csv_output" where
  "disable_warnings w = w\<lparr>disable_warnings_flag := True\<rparr>"

section \<open>Sequences of calls\<close>

text \<open>
  A call of one of the methods on the writer. An exception goes to the caller, who may
  go on using the writer: the next call starts from the writer as the failed call left
  it. \<open>run\<close> is the writer after the calls, \<open>raised\<close> the exceptions they raised.
\<close>

datatype call = Record record_arg string | Warn string | DisableWarnings

fun do_call :: "environment \<Rightarrow> csv_output \<Rightarrow> call \<Rightarrow> (error + unit) \<times> csv_output" where
  "do_call env w (Record data prefix) =
     (fst (record_csv env w data prefix), fst (snd (record_csv env w data prefix)))"
| "do_call env w (Warn msg) =
     (case warn env w msg of (Inl e, w') \<Rightarrow> (Inl e, w') | (Inr m, w') \<Rightarrow> (Inr (), w'))"
| "do_call env w DisableWarnings = (Inr (), disable_warnings w)"

definition run :: "environment \<Rightarrow> csv_output \<Rightarrow> call list \<Rightarrow> csv_output" where
  "run env w cs = foldl (\<lambda>w' c. snd (do_call env w' c)) w cs"

fun raised :: "environment \<Rightarrow> csv_output \<Rightarrow> call list \<Rightarrow> error list" where
  "raised env w [] = []"
| "raised env w (c # cs) =
     (case fst (do_call env w c) of Inl e \<Rightarrow> [e] | Inr u \<Rightarrow> [])
       @ raised env (snd (do_call env w c)) cs"

section \<open>What is on disk, and what was presented\<close>

text \<open>
  The header line as a set of column names (no column when the file is empty), the data
  rows (every record after the header), and a data row read by column name.
\<close>

definition header_on_disk :: "csv_row list \<Rightarrow> string set" where
  "header_on_disk f = (case f of [] \<Rightarrow> {} | header # lines \<Rightarrow> set header)"

definition data_rows :: "csv_row list \<Rightarrow> csv_row list" where
  "data_rows f = (case f of [] \<Rightarrow> [] | header # lines \<Rightarrow> lines)"

definition cell_on_disk :: "csv_row list \<Rightarrow> nat \<Rightarrow> string \<Rightarrow> string option" where
  "cell_on_disk f i c =
     (case f of
        [] \<Rightarrow> None
      | header # lines \<Rightarrow> if i < length lines then map_of (zip header (lines ! i)) c else None)"


text \<open>
  The rows a sequence of calls presents: the primitive dictionaries of the
  \<^verbatim>\<open>TabularInput\<close> arguments of its \<^verbatim>\<open>record\<close> calls, in order; and the union of
  their keys.
\<close>

fun presented :: "call list \<Rightarrow> pydict list" where
  "presented [] = []"
| "presented (Record (TabularInput t) prefix # cs) = as_primitive_dict t # presented cs"
| "presented (c # cs) = presented cs"


text \<open>The cells of a row under the columns \<open>fs\<close>: the text of its value, or nothing.\<close>

definition row_cells :: "string list \<Rightarrow> pydict \<Rightarrow> csv_row" where
  "row_cells fs d = map (\<lambda>key. cell_text (get d key (PyStr []))) fs"

text \<open>
  The rows that reach the file: all those presented but the rows with no key that come
  before the first row with a key.
\<close>

definition written :: "pydict list \<Rightarrow> pydict list" where
  "written ds = dropWhile (\<lambda>d. keys d = []) ds"

text \<open>
  The state of a writer that has been given the rows \<open>ds\<close> and has read its file back
  without failure whenever it did: nothing before the first header; afterwards the
  field names are the keys of the rows, the header lists them, there is one data row
  for each row written, with one cell for each field name, and the position is the end
  of the file.
\<close>

definition holds_rows :: "csv_output \<Rightarrow> pydict list \<Rightarrow> bool" where
  "holds_rows w ds =
     (position w = AtEnd \<and>
      (case fieldnames w of
         None \<Rightarrow> written ds = [] \<and> writer w = None \<and> log_file w = []
       | Some fs \<Rightarrow>
           written ds \<noteq> [] \<and> writer w = Some DictWriter \<and> distinct fs \<and> fs \<noteq> [] \<and>
           set fs = \<Union> (set (map (\<lambda>d. set (keys d)) ds)) \<and>
           (case log_file w of
              [] \<Rightarrow> False
            | header # rows \<Rightarrow>
                header = fs \<and> length rows = length (written ds) \<and>
                list_all (\<lambda>row. length row = length fs) rows)))"

text \<open>
  The part of the writer that \<^verbatim>\<open>record\<close> and \<^verbatim>\<open>rewriteCSV\<close> work on (the file and
  its position, the \<^verbatim>\<open>DictWriter\<close>, the field names, and the count of rewrites), as
  opposed to the fields of the warnings.
\<close>

definition csv_state ::
  "csv_output \<Rightarrow>
     csv_row list \<times> file_position \<times> dict_writer option \<times> string list option \<times> nat" where
  "csv_state w = (log_file w, position w, writer w, fieldnames w, rewrite_count w)"

fun is_record_call :: "call \<Rightarrow> bool" where
  "is_record_call (Record data prefix) = True"
| "is_record_call (Warn msg) = False"
| "is_record_call DisableWarnings = False"

text \<open>
  The two fields \<^verbatim>\<open>_writer\<close> and \<^verbatim>\<open>_fieldnames\<close> are set together, and nothing is
  on disk before they are.
\<close>

definition set_together :: "csv_output \<Rightarrow> bool" where
  "set_together w =
     (case writer w of
        None \<Rightarrow> fieldnames w = None \<and> log_file w = []
      | Some dw \<Rightarrow> fieldnames w \<noteq> None)"

section \<open>Example inputs and environments\<close>

text \<open>
  A \<^verbatim>\<open>TabularInput\<close> with nothing marked yet, and the three calls of the scenario of
  the specification.
\<close>

abbreviation tabular :: "pydict \<Rightarrow> record_arg" where
  "tabular d \<equiv> TabularInput \<lparr>as_primitive_dict = d, recorded = {}\<rparr>"

abbreviation example_calls :: "call list" where
  "example_calls \<equiv>
     [Record (tabular [(''x'', PyScalar ''1'')]) [],
      Record (tabular [(''x'', PyScalar ''2''), (''y'', PyScalar ''5'')]) [],
      Record (tabular [(''x'', PyScalar ''3''), (''y'', PyScalar ''6'')]) []]"

text \<open>
  The environment of the examples: sets iterate in insertion order, a write after a
  failed reading finds the position at the end of the file (as it is when the record
  the reader raised on is the last of the file), and warnings are not errors.
\<close>

definition example_env :: environment where
  "example_env =
     \<lparr>set_iteration = remdups, stale_write = (\<lambda>tail row. tail @ [row]), warnings_raise = False\<rparr>"

text \<open>
  Two strings of the same character: one longer than the field size limit by one, one
  of 6000 characters.
\<close>

definition long_cell :: string where
  "long_cell = replicate 131073 (CHR ''a'')"

definition wide_cell :: string where
  "wide_cell = replicate 6000 (CHR ''b'')"

text \<open>
  A file on which a failed reading leaves the position inside the file. After the rows
  \<^verbatim>\<open>{x: long_cell, y: long_cell}\<close> and \<^verbatim>\<open>{x: wide_cell, y: wide_cell}\<close> the file has
  274157 bytes, in either order of the two columns: the header \<^verbatim>\<open>x,y\<close> with its line
  end \<^verbatim>\<open>CR LF\<close> in bytes 0 to 4, the first row (twice 131073 characters, a comma and
  the line end) in bytes 5 to 262153, the second row (twice 6000 characters, a comma and
  the line end) in bytes 262154 to 274156. The reader raises on the first row; the text
  layer reads in chunks of 8192 bytes and has read 33 of them by then, so the position
  is byte 270336, which is byte 8182 of the second row: past its first cell (6000
  bytes) and its comma, after 2181 characters of its second cell. A row of two cells
  without quotes written there takes the place of as many bytes as its two cells, its
  comma and its line end have, and what is left of the second cell of the old row
  becomes a row of its own. \<open>observed_write\<close> is this, for that file; \<open>observed_env\<close>
  is the environment with it.
\<close>

definition observed_write :: "csv_row list \<Rightarrow> csv_row \<Rightarrow> csv_row list" where
  "observed_write tail row =
     (case (tail, row) of
        ([first, [c1, c2]], [r1, r2]) \<Rightarrow>
          [first, [c1, take 2181 c2 @ r1, r2], [drop (2181 + length r1 + 1 + length r2 + 2) c2]]
      | _ \<Rightarrow> tail @ [row])"

definition observed_env :: environment where
  "observed_env =
     \<lparr>set_iteration = remdups, stale_write = observed_write, warnings_raise = False\<rparr>"

abbreviation long_calls :: "call list" where
  "long_calls \<equiv>
     [Record (tabular [(''x'', PyStr long_cell), (''y'', PyStr long_cell)]) [],
      Record (tabular [(''x'', PyStr wide_cell), (''y'', PyStr wide_cell)]) [],
      Record (tabular [(''z'', PyScalar ''5'')]) []]"

abbreviation long_calls_then :: "call \<Rightarrow> call list" where
  "long_calls_then c \<equiv>
     [Record (tabular [(''x'', PyStr long_cell), (''y'', PyStr long_cell)]) [],
      Record (tabular [(''x'', PyStr wide_cell), (''y'', PyStr wide_cell)]) [],
      Record (tabular [(''z'', PyScalar ''5'')]) [],
      c]"

text \<open>An environment whose warnings filter turns the warnings of the class into errors.\<close>

definition strict_env :: environment where
  "strict_env =
     \<lparr>set_iteration = remdups, stale_write = (\<lambda>tail row. tail @ [row]), warnings_raise = True\<rparr>"

section \<open>Dictionaries, padding, field names and single writes\<close>

lemma map_of_setitem: "map_of (setitem d k v) = (map_of d)(k \<mapsto> v)"
  by (induction d) (auto simp: fun_eq_iff)

lemma keys_setitem: "set (keys (setitem d k v)) = insert k (set (keys d))"
  by (induction d) (force simp: keys_def)+

lemma map_of_foldl_setitem:
  "map_of (foldl (\<lambda>d (k, v). setitem d k v) d ps) = map_of d ++ map_of (rev ps)"
proof (induction ps arbitrary: d)
  case Nil
  show ?case by simp
next
  case (Cons p ps)
  obtain k v where p: "p = (k, v)" by (cases p)
  have "map_of (foldl (\<lambda>d (k, v). setitem d k v) d (p # ps))
        = (map_of d)(k \<mapsto> v) ++ map_of (rev ps)"
    using Cons.IH [of "setitem d k v"] by (simp only: p foldl_Cons prod.case map_of_setitem)
  also have "\<dots> = map_of d ++ map_of (rev (p # ps))"
    by (simp add: p fun_eq_iff map_add_def split: option.splits)
  finally show ?case .
qed

lemma map_of_dict_of: "map_of (dict_of ps) = map_of (rev ps)"
  by (simp add: dict_of_def map_of_foldl_setitem)

lemma map_of_rev_distinct:
  assumes "distinct (map fst ps)"
  shows "map_of (rev ps) = map_of ps"
proof -
  have "distinct (map fst (rev ps))" using assms by (metis distinct_rev rev_map)
  then show ?thesis using assms by (simp add: map_of_inject_set)
qed

lemma map_of_dict_of_zip:
  "distinct fs \<Longrightarrow> map_of (dict_of (zip fs vs)) = map_of (zip fs vs)"
  by (simp add: map_of_dict_of map_of_rev_distinct map_fst_zip_take)


lemma get_header_dict:
  assumes "distinct fs" "key \<in> set fs"
  shows "get (dict_of (zip fs (map PyStr fs))) key dflt = PyStr key"
proof -
  have "map_of (zip fs (map PyStr fs)) key = Some (PyStr key)"
    using assms(2) by (induction fs) auto
  then show ?thesis using assms(1) by (simp add: get_def map_of_dict_of_zip)
qed

lemma row_cells_header: "distinct fs \<Longrightarrow> row_cells fs (dict_of (zip fs (map PyStr fs))) = fs"
  by (simp add: row_cells_def get_header_dict map_idI)

lemma map_of_no_key: "c \<notin> set (keys r) \<Longrightarrow> map_of r c = None"
  by (simp add: keys_def map_of_eq_None_iff)

lemma map_of_pad_row:
  "map_of (pad_row fs r) c =
     (if c \<in> set (keys r) then map_of r c
      else if c \<in> set fs then Some (PyStr []) else None)"
proof (induction fs arbitrary: r)
  case Nil
  show ?case by (simp add: pad_row_def map_of_no_key)
next
  case (Cons f fs)
  have unfold: "pad_row (f # fs) r =
      pad_row fs (if \<not> contains r f then setitem r f (PyStr []) else r)"
    by (simp add: pad_row_def)
  show ?case
    unfolding unfold Cons.IH
    by (auto simp: contains_def keys_setitem map_of_setitem map_of_no_key)
qed

lemma keys_pad_row: "set (keys (pad_row fs r)) = set (keys r) \<union> set fs"
proof (induction fs arbitrary: r)
  case Nil
  show ?case by (simp add: pad_row_def)
next
  case (Cons f fs)
  have unfold: "pad_row (f # fs) r =
      pad_row fs (if \<not> contains r f then setitem r f (PyStr []) else r)"
    by (simp add: pad_row_def)
  show ?case
    unfolding unfold Cons.IH
    by (auto simp: contains_def keys_setitem)
qed

lemma add_fieldnames_set:
  assumes "iteration_order iter"
  shows "set (add_fieldnames iter new fs) = set fs \<union> set new"
proof -
  have it: "\<And>xs. set (iter xs) = set xs" using assms by (simp add: iteration_order_def)
  have "set (fold (\<lambda>key s. if key \<notin> set s then iter (s @ [key]) else s) new fs)
        = set fs \<union> set new"
    by (induction new arbitrary: fs) (auto simp: it)
  then show ?thesis by (simp add: add_fieldnames_def)
qed

lemma add_fieldnames_distinct:
  assumes "iteration_order iter" "distinct fs"
  shows "distinct (add_fieldnames iter new fs)"
proof -
  have it: "\<And>xs. distinct (iter xs)" using assms(1) by (simp add: iteration_order_def)
  have "distinct fs \<Longrightarrow> distinct (fold (\<lambda>key s. if key \<notin> set s then iter (s @ [key]) else s) new fs)"
    by (induction new arbitrary: fs) (auto simp: it)
  then show ?thesis using assms(2) by (simp add: add_fieldnames_def)
qed

lemma row_cells_pad_row: "row_cells fs (pad_row fs d) = row_cells fs d"
  by (simp add: row_cells_def get_def map_of_pad_row map_of_no_key)

lemma length_row_cells: "length (row_cells fs d) = length fs"
  by (simp add: row_cells_def)

lemma no_CR_universal_newlines: "CR \<notin> set s \<Longrightarrow> universal_newlines s = s"
  by (induction s rule: universal_newlines.induct) auto

lemma length_universal_newlines_le: "length (universal_newlines s) \<le> length s"
  by (induction s rule: universal_newlines.induct) auto

lemma write_record_fields:
  "position (write_record env w row) = position w"
  "writer (write_record env w row) = writer w"
  "fieldnames (write_record env w row) = fieldnames w"
  "warned_once (write_record env w row) = warned_once w"
  "disable_warnings_flag (write_record env w row) = disable_warnings_flag w"
  "warnings_emitted (write_record env w row) = warnings_emitted w"
  "rewrite_count (write_record env w row) = rewrite_count w"
  by (simp_all add: write_record_def split: file_position.splits)

lemma write_record_AtEnd:
  "position w = AtEnd \<Longrightarrow> write_record env w row = w\<lparr>log_file := log_file w @ [row]\<rparr>"
  by (simp add: write_record_def)

lemma writerow_Some:
  "fieldnames w = Some fs \<Longrightarrow>
   writerow env w d = (Inr (), write_record env w (row_cells fs d))"
  by (simp add: writerow_def row_cells_def)

lemma writeheader_Some:
  "fieldnames w = Some fs \<Longrightarrow>
   writeheader env w =
     (Inr (), write_record env w (row_cells fs (dict_of (zip fs (map PyStr fs)))))"
  by (simp add: writeheader_def writerow_Some)

lemma fold_writerow:
  "fieldnames w = Some fs \<Longrightarrow> position w = AtEnd \<Longrightarrow>
   fold (\<lambda>row r. and_then r (\<lambda>s. writerow env s (g row))) rows (Inr (), w) =
     (Inr (), w\<lparr>log_file := log_file w @ map (\<lambda>row. row_cells fs (g row)) rows\<rparr>)"
proof (induction rows arbitrary: w)
  case Nil
  show ?case by simp
next
  case (Cons row rows)
  have step: "and_then (Inr (), w) (\<lambda>s. writerow env s (g row)) =
      (Inr (), w\<lparr>log_file := log_file w @ [row_cells fs (g row)]\<rparr>)"
    using Cons.prems by (simp add: and_then_def writerow_Some write_record_AtEnd)
  show ?case
    using Cons.IH [of "w\<lparr>log_file := log_file w @ [row_cells fs (g row)]\<rparr>"] Cons.prems
    by (simp add: step)
qed

lemma rewriteCSV_failed:
  assumes "DictReader (log_file w) = Inl e"
  shows "rewriteCSV env w new =
     (Inl e,
      w\<lparr>position := AfterFailedRead (length (takeWhile (\<lambda>row. \<not> too_long row) (log_file w))),
        rewrite_count := Suc (rewrite_count w)\<rparr>)"
  using assms by (simp add: rewriteCSV_def)

lemma rewriteCSV_read:
  assumes "fieldnames w = Some fs" and "DictReader (log_file w) = Inr csvdata"
  shows "rewriteCSV env w new =
     (Inr (),
      w\<lparr>log_file :=
           row_cells (add_fieldnames (set_iteration env) new fs)
             (dict_of (zip (add_fieldnames (set_iteration env) new fs)
                        (map PyStr (add_fieldnames (set_iteration env) new fs))))
           # map (\<lambda>row. row_cells (add_fieldnames (set_iteration env) new fs)
                          (pad_row (add_fieldnames (set_iteration env) new fs) row))
               csvdata,
        position := AtEnd,
        rewrite_count := Suc (rewrite_count w),
        fieldnames := Some (add_fieldnames (set_iteration env) new fs),
        writer := Some DictWriter\<rparr>)"
  using assms
  by (simp add: rewriteCSV_def Let_def writeheader_Some write_record_AtEnd fold_writerow)

lemma DictReader_cases:
  "DictReader f = Inl CsvError \<and> list_ex too_long f \<or>
   (\<exists>csvdata. DictReader f = Inr csvdata \<and> \<not> list_ex too_long f)"
  by (simp add: DictReader_def)

lemma DictReader_length:
  assumes "DictReader (fs # rows) = Inr csvdata" and "fs \<noteq> []"
    and "list_all (\<lambda>row. length row = length fs) rows"
  shows "length csvdata = length rows"
proof -
  have "filter (\<lambda>row. row \<noteq> []) (map (map universal_newlines) rows)
        = map (map universal_newlines) rows"
    using assms(2,3) by (auto simp: filter_id_conv list_all_iff)
  then show ?thesis
    using assms(1) by (auto simp: DictReader_def split: if_splits)
qed

section \<open>One call of record\<close>

lemma fold_mark: "fold (\<lambda>k t'. mark t' k) ks t = t\<lparr>recorded := recorded t \<union> set ks\<rparr>"
  by (induction ks arbitrary: t) (simp_all add: mark_def)

lemma write_data_Some:
  "fieldnames w = Some fs \<Longrightarrow>
   write_data env t d w =
     (Inr (), write_record env w (row_cells fs d),
      TabularInput (t\<lparr>recorded := recorded t \<union> (set (keys d) \<union> set fs)\<rparr>))"
  by (simp add: write_data_def Let_def writerow_Some row_cells_pad_row fold_mark keys_pad_row)

lemma start_file_eq:
  "start_file env w d =
     (Inr (),
      write_record env
        (w\<lparr>fieldnames := Some (set_iteration env (keys d)), writer := Some DictWriter\<rparr>)
        (row_cells (set_iteration env (keys d))
           (dict_of (zip (set_iteration env (keys d)) (map PyStr (set_iteration env (keys d)))))))"
  by (simp add: start_file_def writeheader_Some)

lemma record_csv_other:
  "record_csv env w (OtherObject ty) prefix = (Inl ValueError, w, OtherObject ty)"
  by (simp add: record_csv_def)

lemma record_csv_skip:
  "writer w = None \<Longrightarrow> keys (as_primitive_dict t) = [] \<Longrightarrow>
   record_csv env w (TabularInput t) prefix = (Inr (), w, TabularInput t)"
  by (simp add: record_csv_def)

lemma record_csv_first:
  assumes "iteration_order (set_iteration env)" and "writer w = None"
    and "keys (as_primitive_dict t) \<noteq> []"
  shows "record_csv env w (TabularInput t) prefix =
     (Inr (),
      write_record env
        (write_record env
           (w\<lparr>fieldnames := Some (set_iteration env (keys (as_primitive_dict t))),
              writer := Some DictWriter\<rparr>)
           (set_iteration env (keys (as_primitive_dict t))))
        (row_cells (set_iteration env (keys (as_primitive_dict t))) (as_primitive_dict t)),
      TabularInput (t\<lparr>recorded := recorded t \<union> set (keys (as_primitive_dict t))\<rparr>))"
proof -
  let ?fs = "set_iteration env (keys (as_primitive_dict t))"
  have s: "set ?fs = set (keys (as_primitive_dict t))" and d: "distinct ?fs"
    using assms(1) by (simp_all add: iteration_order_def)
  show ?thesis
    using assms(2,3)
    by (simp add: record_csv_def Let_def start_file_eq issuperset_def s write_data_Some
        row_cells_header [OF d] write_record_fields)
qed

lemma record_csv_fast:
  assumes "writer w = Some dw" and "fieldnames w = Some fs"
    and "set (keys (as_primitive_dict t)) \<subseteq> set fs"
  shows "record_csv env w (TabularInput t) prefix =
     (Inr (), write_record env w (row_cells fs (as_primitive_dict t)),
      TabularInput (t\<lparr>recorded := recorded t \<union> set fs\<rparr>))"
proof -
  have "set (keys (as_primitive_dict t)) \<union> set fs = set fs" using assms(3) by blast
  then show ?thesis
    using assms by (simp add: record_csv_def Let_def issuperset_def write_data_Some)
qed

lemma record_csv_failed:
  assumes "writer w = Some dw" and "fieldnames w = Some fs"
    and "\<not> set (keys (as_primitive_dict t)) \<subseteq> set fs"
    and "DictReader (log_file w) = Inl e"
  shows "record_csv env w (TabularInput t) prefix =
     (Inl e,
      w\<lparr>position := AfterFailedRead (length (takeWhile (\<lambda>row. \<not> too_long row) (log_file w))),
        rewrite_count := Suc (rewrite_count w)\<rparr>,
      TabularInput t)"
  using assms by (simp add: record_csv_def Let_def issuperset_def rewriteCSV_failed)

lemma record_csv_grow:
  assumes "writer w = Some dw" and "fieldnames w = Some fs"
    and "\<not> set (keys (as_primitive_dict t)) \<subseteq> set fs"
    and "DictReader (log_file w) = Inr csvdata"
  shows "record_csv env w (TabularInput t) prefix =
     write_data env t (as_primitive_dict t)
       (snd (rewriteCSV env w (keys (as_primitive_dict t))))"
  using assms by (simp add: record_csv_def Let_def issuperset_def rewriteCSV_read)

lemma written_Nil_iff: "written ds = [] \<longleftrightarrow> (\<forall>d \<in> set ds. keys d = [])"
  by (simp add: written_def dropWhile_eq_Nil_conv)

lemma written_snoc:
  "written (ds @ [d]) = (if written ds = [] \<and> keys d = [] then [] else written ds @ [d])"
  by (auto simp: written_def dropWhile_append dropWhile_eq_Nil_conv)

lemma set_written: "d \<in> set (written ds) \<Longrightarrow> d \<in> set ds"
  by (auto simp: written_def dest: set_dropWhileD)

lemma holds_rows_record:
  assumes io: "iteration_order (set_iteration env)" and h: "holds_rows w ds"
    and ok: "fst (record_csv env w (TabularInput t) prefix) \<noteq> Inl CsvError"
  shows "fst (record_csv env w (TabularInput t) prefix) = Inr () \<and>
         holds_rows (fst (snd (record_csv env w (TabularInput t) prefix)))
           (ds @ [as_primitive_dict t])"
proof (cases "fieldnames w")
  case None
  with h have w: "written ds = []" "writer w = None" "log_file w = []" "position w = AtEnd"
    by (simp_all add: holds_rows_def)
  from w(1) have empty: "\<Union> (set (map (\<lambda>d. set (keys d)) ds)) = {}"
    by (auto simp: written_Nil_iff)
  show ?thesis
  proof (cases "keys (as_primitive_dict t) = []")
    case True
    then show ?thesis
      using w None by (simp add: record_csv_skip holds_rows_def written_snoc)
  next
    case False
    have "set_iteration env (keys (as_primitive_dict t)) \<noteq> []"
      using io False by (metis iteration_order_def set_empty)
    moreover have "set (set_iteration env (keys (as_primitive_dict t)))
                   = set (keys (as_primitive_dict t))"
        "distinct (set_iteration env (keys (as_primitive_dict t)))"
      using io by (simp_all add: iteration_order_def)
    ultimately show ?thesis
      using w False empty
      by (simp add: record_csv_first [OF io w(2) False] holds_rows_def written_snoc
          write_record_AtEnd length_row_cells)
  qed
next
  case (Some fs)
  with h obtain rows where w: "written ds \<noteq> []" "writer w = Some DictWriter" "distinct fs"
      "fs \<noteq> []" "set fs = \<Union> (set (map (\<lambda>d. set (keys d)) ds))" "position w = AtEnd"
      "log_file w = fs # rows" "length rows = length (written ds)"
      "list_all (\<lambda>row. length row = length fs) rows"
    by (auto simp: holds_rows_def split: list.splits)
  note wr = w(2)
  show ?thesis
  proof (cases "set (keys (as_primitive_dict t)) \<subseteq> set fs")
    case True
    then have "set (keys (as_primitive_dict t)) \<subseteq> \<Union> (set (map (\<lambda>d. set (keys d)) ds))"
      using w(5) by simp
    then show ?thesis
      using w
      by (simp add: record_csv_fast [OF wr Some True] holds_rows_def Some written_snoc
          Un_absorb1 Un_absorb2 write_record_AtEnd length_row_cells)
  next
    case False
    let ?fs' = "add_fieldnames (set_iteration env) (keys (as_primitive_dict t)) fs"
    have "DictReader (log_file w) \<noteq> Inl CsvError"
      using ok by (auto simp: record_csv_failed [OF wr Some False])
    then obtain csvdata where read: "DictReader (log_file w) = Inr csvdata"
      using DictReader_cases [of "log_file w"] by auto
    have len: "length csvdata = length rows"
      using read w(4,9) by (simp add: w(7) DictReader_length)
    have fs': "distinct ?fs'" "set ?fs' = set (keys (as_primitive_dict t)) \<union> set fs"
      using io w(3) by (simp_all add: add_fieldnames_distinct add_fieldnames_set Un_commute)
    then have ne: "?fs' \<noteq> []" using w(4) by auto
    show ?thesis
      using w fs' ne len
      by (simp add: record_csv_grow [OF wr Some False read] rewriteCSV_read [OF Some read]
          write_data_Some holds_rows_def written_snoc write_record_AtEnd length_row_cells
          row_cells_header list_all_iff)
  qed
qed

section \<open>Sequences of calls: what the writer holds\<close>

lemma presented_append: "presented (cs @ cs') = presented cs @ presented cs'"
  by (induction cs rule: presented.induct) simp_all

lemma run_snoc: "run env w (cs @ [c]) = snd (do_call env (run env w cs) c)"
  by (simp add: run_def)

lemma run_Cons: "run env w (c # cs) = run env (snd (do_call env w c)) cs"
  by (simp add: run_def)

lemma raised_append:
  "raised env w (cs @ cs') = raised env w cs @ raised env (run env w cs) cs'"
  by (induction cs arbitrary: w) (simp_all add: run_def)

lemma raised_snoc:
  "raised env w (cs @ [c]) =
     raised env w cs @ (case fst (do_call env (run env w cs) c) of Inl e \<Rightarrow> [e] | Inr u \<Rightarrow> [])"
  by (simp add: raised_append)

lemma holds_rows_cong:
  "fieldnames w' = fieldnames w \<Longrightarrow> writer w' = writer w \<Longrightarrow> log_file w' = log_file w \<Longrightarrow>
   position w' = position w \<Longrightarrow> holds_rows w' ds = holds_rows w ds"
  by (simp add: holds_rows_def split: option.splits)

lemma warn_csv_fields:
  "log_file (snd (warn env w msg)) = log_file w"
  "position (snd (warn env w msg)) = position w"
  "writer (snd (warn env w msg)) = writer w"
  "fieldnames (snd (warn env w msg)) = fieldnames w"
  "rewrite_count (snd (warn env w msg)) = rewrite_count w"
  by (simp_all add: warn_def)

lemma do_call_Warn_snd: "snd (do_call env w (Warn msg)) = snd (warn env w msg)"
  by (simp split: prod.splits sum.splits)

lemma holds_rows_do_call:
  assumes "iteration_order (set_iteration env)" and "holds_rows w ds"
    and "fst (do_call env w c) \<noteq> Inl CsvError"
  shows "holds_rows (snd (do_call env w c)) (ds @ presented [c])"
proof (cases c)
  case (Record a prefix)
  show ?thesis
  proof (cases a)
    case (TabularInput t)
    then show ?thesis
      using holds_rows_record [OF assms(1,2), of t prefix] assms(3) by (simp add: Record)
  next
    case (OtherObject ty)
    then show ?thesis using assms(2) by (simp add: Record record_csv_other)
  qed
next
  case (Warn msg)
  have "holds_rows (snd (warn env w msg)) ds = holds_rows w ds"
    by (rule holds_rows_cong) (simp_all add: warn_csv_fields)
  then show ?thesis using assms(2) by (simp add: Warn do_call_Warn_snd del: do_call.simps)
next
  case DisableWarnings
  have "holds_rows (disable_warnings w) ds = holds_rows w ds"
    by (rule holds_rows_cong) (simp_all add: disable_warnings_def)
  then show ?thesis using assms(2) by (simp add: DisableWarnings)
qed

lemma holds_rows_run:
  assumes "iteration_order (set_iteration env)"
    and "CsvError \<notin> set (raised env (CsvOutput f) cs)"
  shows "holds_rows (run env (CsvOutput f) cs) (presented cs)"
  using assms(2)
proof (induction cs rule: rev_induct)
  case Nil
  show ?case by (simp add: run_def CsvOutput_def holds_rows_def written_def)
next
  case (snoc c cs)
  from snoc.prems have before: "CsvError \<notin> set (raised env (CsvOutput f) cs)"
    and now: "fst (do_call env (run env (CsvOutput f) cs) c) \<noteq> Inl CsvError"
    by (auto simp: raised_snoc split: sum.splits)
  show ?case
    using holds_rows_do_call [OF assms(1) snoc.IH [OF before] now]
    by (simp add: run_snoc presented_append)
qed

lemma set_together_record:
  assumes "set_together w"
  shows "set_together (fst (snd (record_csv env w a prefix)))"
proof (cases a)
  case (OtherObject ty)
  then show ?thesis using assms by (simp add: record_csv_other)
next
  case (TabularInput t)
  show ?thesis
  proof (cases "writer w")
    case None
    then show ?thesis
      using assms DictReader_cases [of "log_file (snd (start_file env w (as_primitive_dict t)))"]
      by (auto simp: TabularInput set_together_def record_csv_def Let_def start_file_eq
          rewriteCSV_read rewriteCSV_failed write_data_Some write_record_fields)
  next
    case (Some dw)
    then obtain fs where fs: "fieldnames w = Some fs"
      using assms by (auto simp: set_together_def)
    show ?thesis
      using Some fs DictReader_cases [of "log_file w"]
      by (auto simp: TabularInput set_together_def record_csv_def Let_def
          rewriteCSV_read rewriteCSV_failed write_data_Some write_record_fields)
  qed
qed

lemma set_together_do_call: "set_together w \<Longrightarrow> set_together (snd (do_call env w c))"
proof (cases c)
  case (Record a p)
  assume "set_together w"
  then show ?thesis by (simp add: Record set_together_record)
next
  case (Warn msg)
  assume "set_together w"
  then show ?thesis
    by (simp add: Warn do_call_Warn_snd set_together_def warn_csv_fields del: do_call.simps
        split: option.splits)
next
  case DisableWarnings
  assume "set_together w"
  then show ?thesis
    by (simp add: DisableWarnings set_together_def disable_warnings_def split: option.splits)
qed

lemma set_together_run: "set_together (run env (CsvOutput f) cs)"
proof (induction cs rule: rev_induct)
  case Nil
  show ?case by (simp add: run_def CsvOutput_def set_together_def)
next
  case (snoc c cs)
  then show ?case by (simp add: run_snoc set_together_do_call)
qed

section \<open>The warnings and the rest of the writer\<close>

lemma write_record_frame:
  "write_record env (w\<lparr>warned_once := A, disable_warnings_flag := B, warnings_emitted := C\<rparr>) row
   = (write_record env w row)\<lparr>warned_once := A, disable_warnings_flag := B, warnings_emitted := C\<rparr>"
  by (simp add: write_record_def split: file_position.splits)

lemma record_csv_frame:
  "record_csv env (w\<lparr>warned_once := A, disable_warnings_flag := B, warnings_emitted := C\<rparr>) a p
   = (case record_csv env w a p of
        (r, w', a') \<Rightarrow>
          (r, w'\<lparr>warned_once := A, disable_warnings_flag := B, warnings_emitted := C\<rparr>, a'))"
proof (cases a)
  case (OtherObject ty)
  then show ?thesis by (simp add: record_csv_other)
next
  case (TabularInput t)
  show ?thesis
  proof (cases "writer w")
    case None
    then show ?thesis
      using DictReader_cases [of "log_file (snd (start_file env w (as_primitive_dict t)))"]
      by (auto simp: TabularInput record_csv_def Let_def start_file_eq rewriteCSV_read
          rewriteCSV_failed write_data_Some write_record_def split: file_position.splits)
  next
    case (Some dw)
    then show ?thesis
      using DictReader_cases [of "log_file w"]
      by (cases "fieldnames w")
        (auto simp: TabularInput record_csv_def Let_def rewriteCSV_read rewriteCSV_failed
          write_data_Some write_record_def split: file_position.splits)
  qed
qed

lemma record_csv_warning_fields:
  "warned_once (fst (snd (record_csv env w a p))) = warned_once w \<and>
   disable_warnings_flag (fst (snd (record_csv env w a p))) = disable_warnings_flag w \<and>
   warnings_emitted (fst (snd (record_csv env w a p))) = warnings_emitted w"
proof -
  obtain r w' a' where res: "record_csv env w a p = (r, w', a')"
    by (cases "record_csv env w a p") auto
  have "record_csv env
          (w\<lparr>warned_once := warned_once w, disable_warnings_flag := disable_warnings_flag w,
             warnings_emitted := warnings_emitted w\<rparr>) a p
        = (r, w'\<lparr>warned_once := warned_once w, disable_warnings_flag := disable_warnings_flag w,
                  warnings_emitted := warnings_emitted w\<rparr>, a')"
    by (simp only: record_csv_frame res prod.case)
  then have "w' = w'\<lparr>warned_once := warned_once w, disable_warnings_flag := disable_warnings_flag w,
                  warnings_emitted := warnings_emitted w\<rparr>"
    by (simp add: res)
  then have "warned_once w' = warned_once w \<and> disable_warnings_flag w' = disable_warnings_flag w \<and>
             warnings_emitted w' = warnings_emitted w"
    by (metis csv_output.select_convs(5,6,7) csv_output.surjective csv_output.update_convs(5,6,7))
  then show ?thesis by (simp add: res)
qed

lemma csv_state_frame_update:
  "fst (record_csv env (w\<lparr>warned_once := A, disable_warnings_flag := B, warnings_emitted := C\<rparr>) a p)
     = fst (record_csv env w a p) \<and>
   csv_state (fst (snd (record_csv env
       (w\<lparr>warned_once := A, disable_warnings_flag := B, warnings_emitted := C\<rparr>) a p)))
     = csv_state (fst (snd (record_csv env w a p))) \<and>
   snd (snd (record_csv env
       (w\<lparr>warned_once := A, disable_warnings_flag := B, warnings_emitted := C\<rparr>) a p))
     = snd (snd (record_csv env w a p))"
  by (simp add: record_csv_frame csv_state_def split: prod.splits)

lemma csv_state_frame:
  assumes "csv_state w1 = csv_state w2"
  shows "fst (record_csv env w1 a p) = fst (record_csv env w2 a p) \<and>
         csv_state (fst (snd (record_csv env w1 a p)))
           = csv_state (fst (snd (record_csv env w2 a p))) \<and>
         snd (snd (record_csv env w1 a p)) = snd (snd (record_csv env w2 a p))"
proof -
  define A where "A = warned_once w1"
  define B where "B = disable_warnings_flag w1"
  define C where "C = warnings_emitted w1"
  have w1: "w1 = w2\<lparr>warned_once := A, disable_warnings_flag := B, warnings_emitted := C\<rparr>"
    using assms by (simp add: csv_state_def A_def B_def C_def)
  show ?thesis
    unfolding w1 by (rule csv_state_frame_update)
qed

lemma csv_state_warn: "csv_state (snd (warn env w msg)) = csv_state w"
  by (simp add: csv_state_def warn_csv_fields)

lemma csv_state_disable_warnings: "csv_state (disable_warnings w) = csv_state w"
  by (simp add: csv_state_def disable_warnings_def)

lemma csv_state_run:
  "csv_state w1 = csv_state w2 \<Longrightarrow>
   csv_state (run env w1 cs) = csv_state (run env w2 (filter is_record_call cs))"
proof (induction cs arbitrary: w1 w2)
  case Nil
  then show ?case by (simp add: run_def)
next
  case (Cons c cs)
  show ?case
  proof (cases c)
    case (Record a p)
    have "csv_state (snd (do_call env w1 c)) = csv_state (snd (do_call env w2 c))"
      using csv_state_frame [OF Cons.prems, of env a p] by (simp add: Record)
    then show ?thesis
      using Cons.IH [of "snd (do_call env w1 c)" "snd (do_call env w2 c)"]
      by (simp add: run_Cons Record)
  next
    case (Warn msg)
    have "csv_state (snd (do_call env w1 c)) = csv_state w2"
      using Cons.prems by (simp add: Warn do_call_Warn_snd csv_state_warn del: do_call.simps)
    then show ?thesis
      using Cons.IH [of "snd (do_call env w1 c)" w2] by (simp add: run_Cons Warn del: do_call.simps)
  next
    case DisableWarnings
    have "csv_state (snd (do_call env w1 c)) = csv_state w2"
      using Cons.prems by (simp add: DisableWarnings csv_state_disable_warnings)
    then show ?thesis
      using Cons.IH [of "snd (do_call env w1 c)" w2] by (simp add: run_Cons DisableWarnings)
  qed
qed

lemma emitted_once_do_call:
  assumes "\<not> warnings_raise env"
    and "distinct (warnings_emitted w)" and "set (warnings_emitted w) \<subseteq> warned_once w"
  shows "distinct (warnings_emitted (snd (do_call env w c))) \<and>
         set (warnings_emitted (snd (do_call env w c))) \<subseteq> warned_once (snd (do_call env w c))"
proof (cases c)
  case (Record a p)
  then show ?thesis using assms by (simp add: record_csv_warning_fields)
next
  case (Warn msg)
  then show ?thesis using assms by (auto simp: warn_def)
next
  case DisableWarnings
  then show ?thesis using assms by (simp add: disable_warnings_def)
qed

lemma emitted_once_run:
  assumes "\<not> warnings_raise env"
  shows "distinct (warnings_emitted (run env (CsvOutput f) cs)) \<and>
   set (warnings_emitted (run env (CsvOutput f) cs)) \<subseteq> warned_once (run env (CsvOutput f) cs)"
proof (induction cs rule: rev_induct)
  case Nil
  show ?case by (simp add: run_def CsvOutput_def)
next
  case (snoc c cs)
  then show ?case using emitted_once_do_call [OF assms] by (simp add: run_snoc)
qed

lemma disabled_do_call:
  assumes "disable_warnings_flag w"
  shows "disable_warnings_flag (snd (do_call env w c)) \<and>
         warnings_emitted (snd (do_call env w c)) = warnings_emitted w"
proof (cases c)
  case (Record a p)
  then show ?thesis using assms by (simp add: record_csv_warning_fields)
next
  case (Warn msg)
  then show ?thesis using assms by (simp add: warn_def)
next
  case DisableWarnings
  then show ?thesis using assms by (simp add: disable_warnings_def)
qed

lemma disabled_run:
  "disable_warnings_flag w \<Longrightarrow>
   disable_warnings_flag (run env w cs) \<and> warnings_emitted (run env w cs) = warnings_emitted w"
proof (induction cs rule: rev_induct)
  case Nil
  then show ?case by (simp add: run_def)
next
  case (snoc c cs)
  then show ?case using disabled_do_call [of "run env w cs" env c] by (simp add: run_snoc)
qed

section \<open>Example runs\<close>

text \<open>
  The scenario of the specification (the rows \<^verbatim>\<open>{x:1}\<close>, \<^verbatim>\<open>{x:2, y:5}\<close>,
  \<^verbatim>\<open>{x:3, y:6}\<close>) gives the header \<^verbatim>\<open>x,y\<close> and the rows \<^verbatim>\<open>1,\<close> and \<^verbatim>\<open>2,5\<close> and
  \<^verbatim>\<open>3,6\<close>, after one rewrite. The scenario \<open>long_calls\<close> ends with a row that has a
  new key \<^verbatim>\<open>z\<close>: the file is read back, the reader raises on the first row, and the
  call raises \<^verbatim>\<open>_csv.Error\<close> with the file and the field names as they were and the
  position inside the second row.
\<close>

lemma iteration_order_remdups: "iteration_order remdups"
  by (simp add: iteration_order_def)

lemma strict_env_fields:
  "set_iteration strict_env = remdups"
  "stale_write strict_env = (\<lambda>tail row. tail @ [row])"
  "warnings_raise strict_env = True"
  by (simp_all add: strict_env_def)

lemma example_env_fields:
  "set_iteration example_env = remdups"
  "stale_write example_env = (\<lambda>tail row. tail @ [row])"
  "warnings_raise example_env = False"
  by (simp_all add: example_env_def)

lemma observed_env_fields:
  "set_iteration observed_env = remdups"
  "stale_write observed_env = observed_write"
  "warnings_raise observed_env = False"
  by (simp_all add: observed_env_def)

lemma long_cell_facts:
  "length long_cell = 131073" "universal_newlines long_cell = long_cell"
  by (simp_all add: long_cell_def no_CR_universal_newlines)

lemma wide_cell_facts:
  "length wide_cell = 6000" "universal_newlines wide_cell = wide_cell"
  by (simp_all add: wide_cell_def no_CR_universal_newlines)


lemmas evaluation =
  run_def CsvOutput_def record_csv_def Let_def start_file_def writeheader_def writerow_def
  write_record_def write_data_def rewriteCSV_def DictReader_def read_row_def dict_of_def
  pad_row_def contains_def keys_def get_def issuperset_def add_fieldnames_def and_then_def
  mark_def too_long_def field_size_limit_def example_env_fields observed_env_fields
  long_cell_facts wide_cell_facts strict_env_fields warn_def disable_warnings_def

lemma example_run:
  "run example_env (CsvOutput ''progress.csv'') example_calls =
     \<lparr>log_file = [[''x'', ''y''], [''1'', []], [''2'', ''5''], [''3'', ''6'']],
      position = AtEnd, writer = Some DictWriter, fieldnames = Some [''x'', ''y''],
      warned_once = {}, disable_warnings_flag = False, warnings_emitted = [],
      rewrite_count = 1\<rparr>"
  by (simp add: evaluation)

lemma example_raised: "raised example_env (CsvOutput ''progress.csv'') example_calls = []"
  by (simp add: evaluation)

lemma long_run:
  "run observed_env (CsvOutput ''progress.csv'') long_calls =
     \<lparr>log_file = [[''x'', ''y''], [long_cell, long_cell], [wide_cell, wide_cell]],
      position = AfterFailedRead 1, writer = Some DictWriter, fieldnames = Some [''x'', ''y''],
      warned_once = {}, disable_warnings_flag = False, warnings_emitted = [],
      rewrite_count = 1\<rparr>"
  by (simp add: evaluation)

lemma long_raised: "raised observed_env (CsvOutput ''progress.csv'') long_calls = [CsvError]"
  by (simp add: evaluation)

lemma wide_cell_parts:
  "take 2181 wide_cell = replicate 2181 (CHR ''b'')"
  "drop 2186 wide_cell = replicate 3814 (CHR ''b'')"
  "drop 2184 wide_cell = replicate 3816 (CHR ''b'')"
  by (simp_all add: wide_cell_def)

lemma holds_rows_NoneD:
  assumes "holds_rows w ds" and "fieldnames w = None"
  shows "written ds = []" and "writer w = None" and "log_file w = []" and "position w = AtEnd"
  using assms by (simp_all add: holds_rows_def)

lemma holds_rows_SomeD:
  assumes "holds_rows w ds" and "fieldnames w = Some fs"
  obtains rows where "log_file w = fs # rows" and "length rows = length (written ds)"
    and "list_all (\<lambda>row. length row = length fs) rows" and "distinct fs" and "fs \<noteq> []"
    and "set fs = \<Union> (set (map (\<lambda>d. set (keys d)) ds))" and "position w = AtEnd"
    and "writer w = Some DictWriter" and "written ds \<noteq> []"
  using assms by (auto simp: holds_rows_def split: list.splits)



lemma long_calls_then_run:
  "run observed_env (CsvOutput ''progress.csv'') (long_calls_then c)
   = snd (do_call observed_env (run observed_env (CsvOutput ''progress.csv'') long_calls) c)"
  by (simp add: run_def)

lemma long_calls_then_raised:
  "raised observed_env (CsvOutput ''progress.csv'') (long_calls_then c)
   = CsvError #
     (case fst (do_call observed_env (run observed_env (CsvOutput ''progress.csv'') long_calls) c)
      of Inl e \<Rightarrow> [e] | Inr u \<Rightarrow> [])"
proof -
  have "long_calls_then c = long_calls @ [c]" by simp
  then show ?thesis
    by (simp only: raised_snoc long_raised) simp
qed

lemma long_run_then_row:
  "log_file (run observed_env (CsvOutput ''progress.csv'')
      (long_calls_then (Record (tabular [(''x'', PyScalar ''1''), (''y'', PyScalar ''1'')]) [])))
   = [[''x'', ''y''], [long_cell, long_cell],
      [wide_cell, replicate 2181 (CHR ''b'') @ ''1'', ''1''], [replicate 3814 (CHR ''b'')]]"
  unfolding long_calls_then_run long_run
  by (simp add: evaluation observed_write_def wide_cell_parts)

section \<open>The properties of the specification\<close>




text \<open>
  Claim C2 (no data loss on rewrite) does not hold of the code. The file is opened as a
  text file with universal newlines, so what \<^verbatim>\<open>rewriteCSV\<close> reads back is not what
  was written where a value or a column name holds a carriage return. The row
  \<^verbatim>\<open>{x: 'a\rb'}\<close> is written as it is; the row \<^verbatim>\<open>{y: 5}\<close> brings a new column, and
  after the rewrite, which completes, the first row holds \<^verbatim>\<open>'a\nb'\<close> under \<^verbatim>\<open>x\<close>.
  Likewise the value recorded under a column named \<^verbatim>\<open>'a\rb'\<close> is lost: the row read
  back has it under \<^verbatim>\<open>'a\nb'\<close>, which is no field name, so the row is padded with the
  empty string under \<^verbatim>\<open>'a\rb'\<close> and written with that.
\<close>

theorem rewrite_alters_value:
  "cell_on_disk (log_file (run example_env (CsvOutput ''progress.csv'')
      [Record (tabular [(''x'', PyStr [CHR ''a'', CR, CHR ''b''])]) []])) 0 ''x''
     = Some [CHR ''a'', CR, CHR ''b''] \<and>
   raised example_env (CsvOutput ''progress.csv'')
      [Record (tabular [(''x'', PyStr [CHR ''a'', CR, CHR ''b''])]) [],
       Record (tabular [(''y'', PyScalar ''5'')]) []] = [] \<and>
   log_file (run example_env (CsvOutput ''progress.csv'')
      [Record (tabular [(''x'', PyStr [CHR ''a'', CR, CHR ''b''])]) [],
       Record (tabular [(''y'', PyScalar ''5'')]) []])
     = [[''x'', ''y''], [[CHR ''a'', LF, CHR ''b''], []], [[], ''5'']] \<and>
   cell_on_disk (log_file (run example_env (CsvOutput ''progress.csv'')
      [Record (tabular [(''x'', PyStr [CHR ''a'', CR, CHR ''b''])]) [],
       Record (tabular [(''y'', PyScalar ''5'')]) []])) 0 ''x''
     = Some [CHR ''a'', LF, CHR ''b''] \<and>
   cell_on_disk (log_file (run example_env (CsvOutput ''progress.csv'')
      [Record (tabular [([CHR ''a'', CR, CHR ''b''], PyScalar ''1'')]) []])) 0
      [CHR ''a'', CR, CHR ''b''] = Some ''1'' \<and>
   cell_on_disk (log_file (run example_env (CsvOutput ''progress.csv'')
      [Record (tabular [([CHR ''a'', CR, CHR ''b''], PyScalar ''1'')]) [],
       Record (tabular [(''y'', PyScalar ''5'')]) []])) 0
      [CHR ''a'', CR, CHR ''b''] = Some []"
  by (simp add: evaluation cell_on_disk_def)

text \<open>
  Claim C3 (row completeness invariant), as the code has it: after any sequence of calls
  on a new writer in which no call has raised \<^verbatim>\<open>_csv.Error\<close>, every data row on disk
  has a cell under every column of the header, and as many cells as the header has
  columns.
\<close>

theorem rows_are_complete:
  assumes "iteration_order (set_iteration env)"
    and "CsvError \<notin> set (raised env (CsvOutput f) cs)"
    and "i < length (data_rows (log_file (run env (CsvOutput f) cs)))"
    and "c \<in> header_on_disk (log_file (run env (CsvOutput f) cs))"
  shows "cell_on_disk (log_file (run env (CsvOutput f) cs)) i c \<noteq> None \<and>
         length (data_rows (log_file (run env (CsvOutput f) cs)) ! i)
           = card (header_on_disk (log_file (run env (CsvOutput f) cs)))"
proof (cases "fieldnames (run env (CsvOutput f) cs)")
  case None
  then show ?thesis
    using holds_rows_NoneD [OF holds_rows_run [OF assms(1,2)] None] assms(3)
    by (simp add: data_rows_def)
next
  case (Some fs)
  obtain rows where lf: "log_file (run env (CsvOutput f) cs) = fs # rows"
    and all: "list_all (\<lambda>row. length row = length fs) rows" and d: "distinct fs"
    using holds_rows_SomeD [OF holds_rows_run [OF assms(1,2)] Some] by metis
  have i: "i < length rows" using assms(3) by (simp add: lf data_rows_def)
  then have len: "length (rows ! i) = length fs"
    using all by (simp add: list_all_length)
  have c: "c \<in> set fs" using assms(4) by (simp add: lf header_on_disk_def)
  then have "map_of (zip fs (rows ! i)) c \<noteq> None"
    using len by (metis map_of_zip_is_None)
  then show ?thesis
    using i len d by (simp add: lf cell_on_disk_def data_rows_def header_on_disk_def distinct_card)
qed

theorem rows_are_complete_witness:
  "cell_on_disk (log_file (run example_env (CsvOutput ''progress.csv'') example_calls)) 0 ''y''
     = Some [] \<and>
   length (data_rows (log_file (run example_env (CsvOutput ''progress.csv'') example_calls)) ! 0)
     = 2"
proof -
  have io: "iteration_order (set_iteration example_env)"
    by (simp add: example_env_fields iteration_order_remdups)
  have ok: "CsvError \<notin> set (raised example_env (CsvOutput ''progress.csv'') example_calls)"
    unfolding example_raised by simp
  have i: "0 < length (data_rows (log_file
             (run example_env (CsvOutput ''progress.csv'') example_calls)))"
    by (simp add: example_run data_rows_def)
  have c: "''y'' \<in> header_on_disk (log_file
             (run example_env (CsvOutput ''progress.csv'') example_calls))"
    by (simp add: example_run header_on_disk_def)
  show ?thesis
    using rows_are_complete [OF io ok i c]
    by (simp add: example_run header_on_disk_def data_rows_def cell_on_disk_def)
qed

text \<open>
  Without the hypothesis the claim fails. After \<open>long_calls\<close> the position is inside
  the second data row. The next call, with the row \<^verbatim>\<open>{x:1, y:1}\<close>, returns normally
  and writes there: the second data row becomes a row of three cells and the rest of it
  a row of one cell, which has no cell under the column \<^verbatim>\<open>y\<close>.
\<close>

theorem incomplete_rows_counterexample:
  "raised observed_env (CsvOutput ''progress.csv'')
     (long_calls_then (Record (tabular [(''x'', PyScalar ''1''), (''y'', PyScalar ''1'')]) []))
     = [CsvError] \<and>
   ''y'' \<in> header_on_disk (log_file (run observed_env (CsvOutput ''progress.csv'')
     (long_calls_then (Record (tabular [(''x'', PyScalar ''1''), (''y'', PyScalar ''1'')]) [])))) \<and>
   length (data_rows (log_file (run observed_env (CsvOutput ''progress.csv'')
     (long_calls_then (Record (tabular [(''x'', PyScalar ''1''), (''y'', PyScalar ''1'')]) [])))))
     = 3 \<and>
   cell_on_disk (log_file (run observed_env (CsvOutput ''progress.csv'')
     (long_calls_then (Record (tabular [(''x'', PyScalar ''1''), (''y'', PyScalar ''1'')]) []))))
     2 ''y'' = None \<and>
   length (data_rows (log_file (run observed_env (CsvOutput ''progress.csv'')
     (long_calls_then (Record (tabular [(''x'', PyScalar ''1''), (''y'', PyScalar ''1'')]) []))))
     ! 1) = 3"
proof -
  have "raised observed_env (CsvOutput ''progress.csv'')
     (long_calls_then (Record (tabular [(''x'', PyScalar ''1''), (''y'', PyScalar ''1'')]) []))
     = [CsvError]"
    unfolding long_calls_then_raised long_run by (simp add: evaluation)
  then show ?thesis
    unfolding long_run_then_row
    by (simp add: header_on_disk_def data_rows_def cell_on_disk_def)
qed




text \<open>
  Claim C5 (type rejection): for an argument that is not a \<^verbatim>\<open>TabularInput\<close>,
  \<^verbatim>\<open>record\<close> raises \<^verbatim>\<open>ValueError\<close>, and the writer (its file, its field names and
  every other field) and the argument are as they were before the call.
\<close>

theorem type_rejection_writes_nothing:
  "record_csv env w (OtherObject ty) prefix = (Inl ValueError, w, OtherObject ty)"
  by (simp add: record_csv_def)




text \<open>
  Claim C7 (empty row before the header): on a writer that has no \<^verbatim>\<open>DictWriter\<close> yet,
  recording a row with no key returns normally and changes nothing: the file, empty
  until then, stays empty, and the field names stay \<^verbatim>\<open>None\<close>.
\<close>

theorem empty_row_before_header:
  assumes "w = run env (CsvOutput f) cs" and "writer w = None"
    and "keys (as_primitive_dict t) = []"
  shows "record_csv env w (TabularInput t) prefix = (Inr (), w, TabularInput t) \<and>
         log_file w = [] \<and> fieldnames w = None"
proof -
  have "set_together w" unfolding assms(1) by (rule set_together_run)
  then have "log_file w = [] \<and> fieldnames w = None"
    using assms(2) by (simp add: set_together_def)
  then show ?thesis using assms(2,3) by (simp add: record_csv_skip)
qed

theorem empty_row_before_header_witness:
  "record_csv example_env (CsvOutput ''progress.csv'')
     (TabularInput \<lparr>as_primitive_dict = [], recorded = {}\<rparr>) []
   = (Inr (), CsvOutput ''progress.csv'', TabularInput \<lparr>as_primitive_dict = [], recorded = {}\<rparr>)
   \<and> log_file (CsvOutput ''progress.csv'') = []
   \<and> fieldnames (CsvOutput ''progress.csv'') = None"
  using empty_row_before_header [where w = "CsvOutput ''progress.csv''" and env = example_env
      and f = "''progress.csv''" and cs = "[]"
      and t = "\<lparr>as_primitive_dict = [], recorded = {}\<rparr>" and prefix = "[]"]
  by (simp add: run_def CsvOutput_def keys_def)

text \<open>
  Claim C8 (warnings at most once, and suppressed), as the code has it. Where the
  warnings filter does not turn the warning into an exception: over any sequence of
  calls on a new writer no message is handed to \<^verbatim>\<open>warnings.warn\<close> twice, and
  \<^verbatim>\<open>_warn\<close> returns its message. Whatever the filter: after \<^verbatim>\<open>disable_warnings\<close>
  no call hands \<^verbatim>\<open>warnings.warn\<close> any message; neither \<^verbatim>\<open>_warn\<close> nor
  \<^verbatim>\<open>disable_warnings\<close> changes the file, its position, the \<^verbatim>\<open>DictWriter\<close> or the
  field names; and taking the calls of \<^verbatim>\<open>_warn\<close> and \<^verbatim>\<open>disable_warnings\<close> out of a
  sequence of calls changes none of these either.
\<close>

theorem warnings_once_and_suppressed:
  "(\<not> warnings_raise env \<longrightarrow>
      distinct (warnings_emitted (run env (CsvOutput f) cs)) \<and>
      fst (warn env w msg) = Inr msg) \<and>
   warnings_emitted (run env (disable_warnings w) cs) = warnings_emitted w \<and>
   csv_state (snd (warn env w msg)) = csv_state w \<and>
   csv_state (disable_warnings w) = csv_state w \<and>
   csv_state (run env w cs) = csv_state (run env w (filter is_record_call cs))"
proof -
  have "disable_warnings_flag (disable_warnings w)" by (simp add: disable_warnings_def)
  then have "warnings_emitted (run env (disable_warnings w) cs)
      = warnings_emitted (disable_warnings w)"
    by (simp add: disabled_run)
  then have off: "warnings_emitted (run env (disable_warnings w) cs) = warnings_emitted w"
    by (simp add: disable_warnings_def)
  have ret: "\<not> warnings_raise env \<Longrightarrow> fst (warn env w msg) = Inr msg"
    by (simp add: warn_def)
  have frame: "csv_state (run env w cs) = csv_state (run env w (filter is_record_call cs))"
    by (rule csv_state_run) (rule refl)
  show ?thesis
    using off ret frame
    by (simp add: emitted_once_run csv_state_warn csv_state_disable_warnings)
qed

theorem warnings_once_and_suppressed_witness:
  "warnings_emitted (run example_env (CsvOutput ''progress.csv'')
     [Warn ''slow'', Warn ''slow'', Warn ''full'', DisableWarnings, Warn ''late''])
     = [''slow'', ''full''] \<and>
   distinct (warnings_emitted (run example_env (CsvOutput ''progress.csv'')
     [Warn ''slow'', Warn ''slow'', Warn ''full'', DisableWarnings, Warn ''late''])) \<and>
   fst (warn example_env (CsvOutput ''progress.csv'') ''slow'') = Inr ''slow''"
proof -
  have "\<not> warnings_raise example_env" by (simp add: example_env_fields)
  then have "distinct (warnings_emitted (run example_env (CsvOutput ''progress.csv'')
     [Warn ''slow'', Warn ''slow'', Warn ''full'', DisableWarnings, Warn ''late''])) \<and>
   fst (warn example_env (CsvOutput ''progress.csv'') ''slow'') = Inr ''slow''"
    using warnings_once_and_suppressed [of example_env "''progress.csv''"
        "[Warn ''slow'', Warn ''slow'', Warn ''full'', DisableWarnings, Warn ''late'']"
        "CsvOutput ''progress.csv''" "''slow''"]
    by blast
  moreover have "warnings_emitted (run example_env (CsvOutput ''progress.csv'')
     [Warn ''slow'', Warn ''slow'', Warn ''full'', DisableWarnings, Warn ''late''])
     = [''slow'', ''full'']"
    by (simp add: evaluation)
  ultimately show ?thesis by blast
qed

text \<open>
  Without the hypothesis on the filter the claim fails. Under a filter with the action
  \<^verbatim>\<open>error\<close> for the warning, \<^verbatim>\<open>warnings.warn\<close> raises it, and \<^verbatim>\<open>_warn\<close>, which has
  no handler, raises with it, at line 106: before line 109 adds the message to
  \<^verbatim>\<open>_warned_once\<close>. So \<^verbatim>\<open>_warn\<close> raises, and the second call with the same message
  hands it to \<^verbatim>\<open>warnings.warn\<close> again, and raises again.
\<close>

theorem warning_raises_twice_counterexample:
  "fst (warn strict_env (CsvOutput ''progress.csv'') ''slow'') = Inl (CsvOutputWarning ''slow'') \<and>
   warned_once (snd (warn strict_env (CsvOutput ''progress.csv'') ''slow'')) = {} \<and>
   warnings_emitted (run strict_env (CsvOutput ''progress.csv'') [Warn ''slow'', Warn ''slow''])
     = [''slow'', ''slow''] \<and>
   raised strict_env (CsvOutput ''progress.csv'') [Warn ''slow'', Warn ''slow'']
     = [CsvOutputWarning ''slow'', CsvOutputWarning ''slow'']"
  by (simp add: evaluation)




text \<open>
  Claim C10 (the prefix is ignored): with the same writer and the same argument, two
  calls of \<^verbatim>\<open>record\<close> that differ in the prefix only have the same outcome, leave
  the same writer (file included) and the same marks on the argument.
\<close>

theorem prefix_is_ignored:
  "record_csv env w data p1 = record_csv env w data p2"
  by (simp add: record_csv_def)

end
